theory Spec2Isabelle
  imports Complex_Main "HOL-Library.Word"
begin

section \<open>The DVB-S modulator application \<^verbatim>\<open>leandvbtx.cc\<close>\<close>

text \<open>
  The application file declares one stage of its own, \<^verbatim>\<open>interpolator<T>\<close>, the
  configuration record \<^verbatim>\<open>config\<close>, the pipeline assembly \<^verbatim>\<open>run\<close> and the
  command-line loop of \<^verbatim>\<open>main\<close>. The buffers, the scheduler, the other stages
  and the filter designer live in the \<^verbatim>\<open>leansdr/*.h\<close> headers, which are not part
  of the sources at hand.

  C types: \<^verbatim>\<open>unsigned int\<close> and \<^verbatim>\<open>int\<close> are 32-bit words, the first read
  with \<^const>\<open>unat\<close>, the second with \<^const>\<open>sint\<close>; converting one into the other
  keeps the bits. Element counts (\<^verbatim>\<open>unsigned long\<close>) are lengths of lists,
  hence \<^typ>\<open>nat\<close>.
\<close>

type_synonym c_uint = "32 word"
type_synonym c_int = "32 word"

subsection \<open>Failures\<close>

datatype error =
    DivisionByZero    \<comment> \<open>integer division by zero\<close>
  | SignedOverflow    \<comment> \<open>a signed \<^verbatim>\<open>int\<close> leaves its range\<close>
  | BufferUnderflow   \<comment> \<open>a reader advances past what is readable\<close>
  | BufferOverflow    \<comment> \<open>a writer commits more than is writable\<close>

subsection \<open>Buffers\<close>

text \<open>
  Modelled from the spec: \<^verbatim>\<open>pipebuf\<close>, \<^verbatim>\<open>pipereader\<close> and \<^verbatim>\<open>pipewriter\<close>
  of \<^verbatim>\<open>leansdr/framework.h\<close>. A buffer is a fixed-capacity store; \<open>readable\<close> is
  the number of fully written, not yet read elements, \<open>writable\<close> the free
  capacity. A reader advances by \<open>n \<le> readable\<close>, a writer commits
  \<open>n \<le> writable\<close>; violating either bound is fatal. \<open>items\<close> holds the readable
  elements, oldest first, and \<open>free\<close> counts the free slots; the capacity
  \<open>length items + free\<close> is fixed: an advance and a commit both keep it.
\<close>

record 'a pipebuf =
  items :: "'a list"
  free :: nat

definition readable :: "'a pipebuf \<Rightarrow> nat" where
  "readable b = length (items b)"

definition writable :: "'a pipebuf \<Rightarrow> nat" where
  "writable b = free b"

definition capacity :: "'a pipebuf \<Rightarrow> nat" where
  "capacity b = length (items b) + free b"

text \<open>Modelled from the spec: the read cursor \<^verbatim>\<open>rd()\<close>, valid for \<open>readable\<close> elements.\<close>

definition rd :: "'a pipebuf \<Rightarrow> 'a list" where
  "rd b = items b"

text \<open>Modelled from the spec: \<^verbatim>\<open>read(n)\<close>, the reader's advance.\<close>

definition read_n :: "nat \<Rightarrow> 'a pipebuf \<Rightarrow> error + 'a pipebuf" where
  "read_n n b =
     (if n \<le> readable b
      then Inr (b\<lparr>items := drop n (items b), free := free b + n\<rparr>)
      else Inl BufferUnderflow)"

text \<open>
  Modelled from the spec: \<^verbatim>\<open>written(n)\<close>, the writer's commit. \<open>stored\<close> are the
  values the stage has stored through the write cursor \<^verbatim>\<open>wr()\<close>, in order; the
  first \<open>n\<close> of them become readable.
\<close>

definition written :: "nat \<Rightarrow> 'a list \<Rightarrow> 'a pipebuf \<Rightarrow> error + 'a pipebuf" where
  "written n stored b =
     (if n \<le> writable b
      then Inr (b\<lparr>items := items b @ take n stored, free := free b - n\<rparr>)
      else Inl BufferOverflow)"

subsection \<open>The interpolator stage\<close>

record interpolator =
  d :: c_uint

text \<open>The constructor stores its \<^verbatim>\<open>int _d\<close> in the \<^verbatim>\<open>unsigned int d\<close>.\<close>

definition interpolator_new :: "c_int \<Rightarrow> interpolator" where
  "interpolator_new d0 = \<lparr>d = d0\<rparr>"

text \<open>
  The inner loop \<^verbatim>\<open>for ( int skip=d-1; skip--; ) *pout++ = 0;\<close> as a function of
  the current \<open>skip\<close>: it stops at 0, otherwise decrements and stores a zero. A
  negative \<open>skip\<close> never reaches 0: the decrement leaves the range of \<^verbatim>\<open>int\<close>.
\<close>

function zero_fill :: "int \<Rightarrow> error + ('a::zero) list" where
  "zero_fill skip =
     (if skip = 0 then Inr []
      else if skip \<le> - (2 ^ 31) then Inl SignedOverflow
      else (case zero_fill (skip - 1) of
              Inl e \<Rightarrow> Inl e
            | Inr zs \<Rightarrow> Inr (0 # zs)))"
  by pat_completeness auto
termination
  by (relation "measure (\<lambda>skip. nat (if 0 \<le> skip then skip else skip + 2 ^ 31))") auto

declare zero_fill.simps [simp del]

text \<open>
  The outer loop over the \<open>count\<close> input elements from \<^verbatim>\<open>pin\<close> to \<^verbatim>\<open>pend\<close>;
  the result lists what was stored through \<^verbatim>\<open>pout\<close>.
\<close>

fun stuff :: "c_uint \<Rightarrow> ('a::zero) list \<Rightarrow> error + 'a list" where
  "stuff dd [] = Inr []"
| "stuff dd (x # xs) =
     (case zero_fill (sint (dd - 1)) of
        Inl e \<Rightarrow> Inl e
      | Inr zs \<Rightarrow> (case stuff dd xs of
                     Inl e \<Rightarrow> Inl e
                   | Inr rest \<Rightarrow> Inr (x # zs @ rest)))"

text \<open>The number of input elements one step takes.\<close>

definition step_count :: "interpolator \<Rightarrow> 'a pipebuf \<Rightarrow> 'b pipebuf \<Rightarrow> nat" where
  "step_count st inb outb = min (readable inb) (writable outb div unat (d st))"

text \<open>\<^verbatim>\<open>interpolator::run\<close>: one step of the stage on its two buffers.\<close>

definition interpolator_run ::
  "interpolator \<Rightarrow> ('a::zero) pipebuf \<Rightarrow> 'a pipebuf \<Rightarrow> error + ('a pipebuf \<times> 'a pipebuf)" where
  "interpolator_run st inb outb =
     (if d st = 0 then Inl DivisionByZero
      else
        let count = step_count st inb outb in
        case stuff (d st) (take count (rd inb)) of
          Inl e \<Rightarrow> Inl e
        | Inr stored \<Rightarrow>
            (case read_n count inb of
               Inl e \<Rightarrow> Inl e
             | Inr inb' \<Rightarrow>
                 (case written (count * unat (d st)) stored outb of
                    Inl e \<Rightarrow> Inl e
                  | Inr outb' \<Rightarrow> Inr (inb', outb'))))"

subsection \<open>The decimator stage\<close>

text \<open>
  Modelled from the spec: the \<^verbatim>\<open>decimator\<close> stage of \<^verbatim>\<open>leansdr/dsp.h\<close>, which
  \<^verbatim>\<open>run\<close> instantiates with \<^verbatim>\<open>cfg.decim\<close>. It retains every \<open>k\<close>-th sample of
  its input: out of each complete group of \<open>k\<close> samples the first one.
\<close>

definition decimate :: "nat \<Rightarrow> 'a list \<Rightarrow> 'a list" where
  "decimate k xs = map (\<lambda>i. xs ! (i * k)) [0..<length xs div k]"

subsection \<open>Floating-point values\<close>

text \<open>
  A \<^verbatim>\<open>float\<close> or \<^verbatim>\<open>double\<close> is modelled by the real number it stands for:
  rounding and the finite range of the formats are not modelled. \<open>Special\<close>
  stands for an infinity or a NaN, and for anything computed from one: a
  division by zero and the square root of a negative number yield it, and every
  operation passes it on. An equation between values of this type therefore
  says which formula the program evaluates; the stored \<^verbatim>\<open>float\<close> is that value
  rounded. Rounding can make two different reals the same \<^verbatim>\<open>float\<close>, so nothing
  below concludes that two such values differ.
\<close>

datatype flt = Fin real | Special

fun fl_mul :: "flt \<Rightarrow> flt \<Rightarrow> flt" where
  "fl_mul (Fin x) (Fin y) = Fin (x * y)"
| "fl_mul _ _ = Special"

fun fl_div :: "flt \<Rightarrow> flt \<Rightarrow> flt" where
  "fl_div (Fin x) (Fin y) = (if y = 0 then Special else Fin (x / y))"
| "fl_div _ _ = Special"

fun fl_sqrt :: "flt \<Rightarrow> flt" where
  "fl_sqrt (Fin x) = (if x < 0 then Special else Fin (sqrt x))"
| "fl_sqrt Special = Special"

fun fl_exp :: "flt \<Rightarrow> flt" where
  "fl_exp (Fin x) = Fin (exp x)"
| "fl_exp Special = Special"

text \<open>The conversion of an \<^verbatim>\<open>int\<close> to \<^verbatim>\<open>float\<close> or \<^verbatim>\<open>double\<close>.\<close>

definition fl_of_int :: "c_int \<Rightarrow> flt" where
  "fl_of_int i = Fin (real_of_int (sint i))"

subsection \<open>The configuration\<close>

record config =
  power :: flt
  agc :: bool
  interp :: c_int
  decim :: c_int
  rolloff :: flt
  verbose :: bool
  debug :: bool

text \<open>The constructor \<^verbatim>\<open>config::config()\<close>.\<close>

definition config_init :: config where
  "config_init =
     \<lparr>power = Fin 1.0, agc = False, interp = 2, decim = 1, rolloff = Fin 0.35,
      verbose = False, debug = False\<rparr>"

subsection \<open>Pipeline assembly\<close>

text \<open>
  \<^verbatim>\<open>run\<close> builds the stages in a fixed order and then calls \<^verbatim>\<open>sch.run()\<close>; its
  own code has no test of the configuration and no branch that returns or exits
  before that call. The record below holds what \<^verbatim>\<open>run\<close> derives from the
  configuration and hands to the filter designer, the resampler, the decimator
  and the AGC. Whether the designer and the constructors of the headers return
  for the arguments they are given is not determined by the application file,
  and is not modelled. The stages before the resampler do not depend on the
  configuration, and the power normalisation of the coefficients divides by the
  constant \<^verbatim>\<open>cstln_amp\<close> of the headers; they are left out.
\<close>

record agc_params =
  out_rms :: flt
  bw :: flt

record pipeline =
  sch_verbose :: bool
  sch_debug :: bool
  rrc_order :: c_int
  rrc_Fm :: flt
  rrc_rolloff :: flt
  resampler_interp :: c_int
  resampler_decim :: c_int
  decimator_d :: c_int
  agc_stage :: "agc_params option"

text \<open>
  \<^verbatim>\<open>float Fm = 1.0 / cfg.interp; int order = cfg.interp * 10;\<close> The product is
  computed in \<^verbatim>\<open>int\<close>; the word multiplication wraps around where C leaves the
  overflow undefined.
\<close>

definition run :: "config \<Rightarrow> pipeline" where
  "run cfg =
     \<lparr>sch_verbose = verbose cfg,
      sch_debug = debug cfg,
      rrc_order = interp cfg * 10,
      rrc_Fm = fl_div (Fin 1.0) (fl_of_int (interp cfg)),
      rrc_rolloff = rolloff cfg,
      resampler_interp = interp cfg,
      resampler_decim = 1,
      decimator_d = decim cfg,
      agc_stage =
        (if agc cfg
         then Some \<lparr>out_rms = fl_div (power cfg)
                                (fl_sqrt (fl_div (fl_of_int (interp cfg)) (fl_of_int (decim cfg)))),
                    bw = fl_div (fl_mul (Fin 0.001) (fl_of_int (decim cfg)))
                           (fl_of_int (interp cfg))\<rparr>
         else None)\<rparr>"

text \<open>
  Modelled from the spec: the \<^verbatim>\<open>simple_agc\<close> stage of the headers tracks the power
  with an exponential moving average of bandwidth \<open>bw\<close>, whose time constant is
  \<open>1 / bw\<close> sample periods. The AGC runs behind the resampler and the decimator,
  at \<open>interp / decim\<close> samples per symbol, which gives its time constant in
  symbol periods.
\<close>

definition agc_time_constant_symbols :: "flt \<Rightarrow> c_int \<Rightarrow> c_int \<Rightarrow> flt" where
  "agc_time_constant_symbols b i k =
     fl_div (fl_div (Fin 1) b) (fl_div (fl_of_int i) (fl_of_int k))"

subsection \<open>The command line\<close>

text \<open>
  \<^verbatim>\<open>sscanf(s, "%d/%d", &a, &b)\<close> of the C library. A \<^verbatim>\<open>%d\<close> skips white space,
  takes an optional sign and then decimal digits, at least one. The call returns
  the number of conversions stored, or \<^verbatim>\<open>EOF\<close> (\<open>-1\<close>) when the string ends before
  the first conversion. A value outside the range of \<^verbatim>\<open>int\<close>, which C leaves
  undefined, is reduced modulo \<open>2 ^ 32\<close>.
\<close>

definition isspace :: "char \<Rightarrow> bool" where
  "isspace c = (c \<in> set [CHR '' '', CHR 0x09, CHR 0x0A, CHR 0x0B, CHR 0x0C, CHR 0x0D])"

definition isdigit :: "char \<Rightarrow> bool" where
  "isdigit c = (c \<in> set ''0123456789'')"

definition digit_val :: "char \<Rightarrow> int" where
  "digit_val c = int (of_char c) - 48"

fun scan_digits :: "int \<Rightarrow> string \<Rightarrow> int \<times> string" where
  "scan_digits acc [] = (acc, [])"
| "scan_digits acc (c # cs) =
     (if isdigit c then scan_digits (acc * 10 + digit_val c) cs else (acc, c # cs))"

datatype conv = InputFailure | MatchFailure | Converted int string

definition scan_unsigned :: "bool \<Rightarrow> string \<Rightarrow> conv" where
  "scan_unsigned neg s =
     (case s of
        [] \<Rightarrow> MatchFailure
      | c # cs \<Rightarrow>
          if isdigit c
          then (case scan_digits 0 s of (n, rest) \<Rightarrow> Converted (if neg then - n else n) rest)
          else MatchFailure)"

definition scan_d :: "string \<Rightarrow> conv" where
  "scan_d s =
     (case dropWhile isspace s of
        [] \<Rightarrow> InputFailure
      | c # cs \<Rightarrow>
          if c = CHR ''-'' then scan_unsigned True cs
          else if c = CHR ''+'' then scan_unsigned False cs
          else scan_unsigned False (c # cs))"

definition sscanf_d_slash_d :: "string \<Rightarrow> c_int \<times> c_int \<Rightarrow> int \<times> c_int \<times> c_int" where
  "sscanf_d_slash_d s ab =
     (case scan_d s of
        InputFailure \<Rightarrow> (- 1, ab)
      | MatchFailure \<Rightarrow> (0, ab)
      | Converted n rest \<Rightarrow>
          (case rest of
             [] \<Rightarrow> (1, word_of_int n, snd ab)
           | c # rest' \<Rightarrow>
               if c = CHR ''/''
               then (case scan_d rest' of
                       Converted m _ \<Rightarrow> (2, word_of_int n, word_of_int m)
                     | _ \<Rightarrow> (1, word_of_int n, snd ab))
               else (1, word_of_int n, snd ab)))"

text \<open>\<^verbatim>\<open>usage(name, f, c)\<close> prints the help text on the stream \<open>f\<close> and exits with code \<open>c\<close>.\<close>

datatype stream = Stdout | Stderr

type_synonym usage_exit = "stream \<times> int"

text \<open>
  The option loop of \<^verbatim>\<open>main\<close>, as a function of the arguments from \<^verbatim>\<open>argv[i]\<close>
  on and of the configuration so far. The C library's \<^verbatim>\<open>atof\<close> is a parameter.
  \<^verbatim>\<open>-f\<close>, \<^verbatim>\<open>--roll-off\<close> and \<^verbatim>\<open>--power\<close> need a following argument
  (\<^verbatim>\<open>i+1<argc\<close>); without one they fall through to the final \<^verbatim>\<open>else\<close>.
\<close>

fun parse_args :: "(string \<Rightarrow> flt) \<Rightarrow> string list \<Rightarrow> config \<Rightarrow> usage_exit + config" where
  "parse_args atof [] cfg = Inr cfg"
| "parse_args atof (a # rest) cfg =
     (if a = ''-h'' then Inl (Stdout, 0)
      else if a = ''-v'' then parse_args atof rest (cfg\<lparr>verbose := True\<rparr>)
      else if a = ''-d'' then parse_args atof rest (cfg\<lparr>debug := True\<rparr>)
      else if a = ''-f'' \<and> rest \<noteq> [] then
        (case sscanf_d_slash_d (hd rest) (interp cfg, 1) of
           (ret, i', d') \<Rightarrow>
             if ret < 1 then Inl (Stderr, 1)
             else parse_args atof (tl rest) (cfg\<lparr>decim := d', interp := i'\<rparr>))
      else if a = ''--roll-off'' \<and> rest \<noteq> [] then
        parse_args atof (tl rest) (cfg\<lparr>rolloff := atof (hd rest)\<rparr>)
      else if a = ''--power'' \<and> rest \<noteq> [] then
        parse_args atof (tl rest)
          (cfg\<lparr>power := fl_exp (fl_div (fl_mul (Fin (ln 10)) (atof (hd rest))) (Fin 20))\<rparr>)
      else if a = ''--agc'' then parse_args atof rest (cfg\<lparr>agc := True\<rparr>)
      else Inl (Stderr, 1))"



text \<open>
  An instance of the parameter \<open>atof\<close> for closed examples: it yields \<open>v\<close> for
  every string, and is used where \<open>v\<close> is the value of the one number on the
  command line.
\<close>

definition atof_const :: "flt \<Rightarrow> string \<Rightarrow> flt" where
  "atof_const v s = v"

section \<open>Properties\<close>

lemma zero_fill_nat: "zero_fill (int n) = Inr (replicate n 0)"
proof (induction n)
  case 0
  show ?case by (simp add: zero_fill.simps)
next
  case (Suc n)
  show ?case
    by (subst zero_fill.simps) (simp add: Suc)
qed

subsection \<open>Words\<close>

lemma sint_small:
  fixes w :: "32 word"
  assumes "unat w < 2 ^ 31"
  shows "sint w = int (unat w)"
proof -
  have "int (unat w) < int (2 ^ 31)" using assms by (simp only: of_nat_less_iff)
  hence "uint w < 2 ^ 31" by simp
  moreover have "- (2 ^ 31) \<le> uint w"
    by (rule order_trans [of _ 0]) simp_all
  ultimately have "signed_take_bit 31 (uint w) = uint w"
    by (intro signed_take_bit_int_eq_self)
  thus ?thesis by (simp add: sint_uint)
qed

lemma unat_of_nonneg:
  fixes w :: "32 word"
  assumes "0 \<le> sint w"
  shows "int (unat w) = sint w"
proof -
  have "sint w < 2 ^ 31" using sint_lt [of w] by simp
  hence "take_bit 32 (sint w) = sint w"
    using assms by (intro take_bit_int_eq_self) simp_all
  thus ?thesis using uint_sint [of w] by simp
qed

lemma skip_of_pos:
  fixes dd :: c_uint
  assumes "dd \<noteq> 0" "unat dd \<le> 2 ^ 31"
  shows "sint (dd - 1) = int (unat dd - 1)"
proof -
  have u: "unat (dd - 1) = unat dd - 1"
    using assms(1) by (simp add: unat_minus_one)
  have pos: "0 < unat dd" using assms(1) by (simp add: unat_gt_0)
  have "unat (dd - 1) < 2 ^ 31" using u pos assms(2) by simp
  hence "sint (dd - 1) = int (unat (dd - 1))" by (rule sint_small)
  thus ?thesis by (simp only: u)
qed

lemma pos_factor:
  fixes d0 :: c_int
  assumes "0 < sint d0"
  shows "d0 \<noteq> 0" and "unat d0 \<le> 2 ^ 31" and "unat d0 = nat (sint d0)"
proof -
  have e: "int (unat d0) = sint d0" using assms by (intro unat_of_nonneg) simp
  show "d0 \<noteq> 0" using assms by auto
  show "unat d0 = nat (sint d0)" using e by linarith
  have "int (unat d0) < int (2 ^ 31)" using sint_lt [of d0] by (simp only: e) simp
  hence "unat d0 < 2 ^ 31" by (simp only: of_nat_less_iff)
  thus "unat d0 \<le> 2 ^ 31" by (rule less_imp_le)
qed

subsection \<open>Buffers keep their capacity\<close>

lemma read_n_capacity: "read_n n b = Inr b' \<Longrightarrow> capacity b' = capacity b"
  by (auto simp: read_n_def capacity_def readable_def split: if_splits)

lemma written_capacity:
  "written n stored b = Inr b' \<Longrightarrow> n \<le> length stored \<Longrightarrow> capacity b' = capacity b"
  by (auto simp: written_def capacity_def writable_def split: if_splits)

subsection \<open>The loops of the interpolator\<close>

lemma zero_fill_error: "zero_fill skip = (Inl e :: error + ('a::zero) list) \<Longrightarrow> e = SignedOverflow"
proof (induction skip rule: zero_fill.induct)
  case (1 skip)
  from "1.prems" show ?case
    by (subst (asm) zero_fill.simps)
       (auto split: if_splits sum.splits dest: "1.IH")
qed

lemma stuff_error: "stuff dd xs = Inl e \<Longrightarrow> e = SignedOverflow"
  by (induction xs arbitrary: e) (auto split: sum.splits dest: zero_fill_error)

lemma stuff_pos:
  assumes "dd \<noteq> 0" "unat dd \<le> 2 ^ 31"
  shows "stuff dd xs = Inr (concat (map (\<lambda>x. x # replicate (unat dd - 1) 0) xs))"
  by (induction xs) (simp_all add: skip_of_pos [OF assms] zero_fill_nat)

lemma length_stuffed:
  "length (concat (map (\<lambda>x. x # replicate k 0) xs)) = length xs * Suc k"
  by (induction xs) simp_all

subsection \<open>One step of the interpolator\<close>

lemma step_count_readable: "step_count st inb outb \<le> readable inb"
  by (simp add: step_count_def)

lemma step_count_writable: "step_count st inb outb * unat (d st) \<le> writable outb"
proof -
  have "step_count st inb outb \<le> writable outb div unat (d st)"
    by (simp add: step_count_def)
  hence "step_count st inb outb * unat (d st) \<le> writable outb div unat (d st) * unat (d st)"
    by (rule mult_le_mono1)
  also have "\<dots> \<le> writable outb" by simp
  finally show ?thesis .
qed

text \<open>Neither commit of a step can fail: the step returns what the loops return.\<close>

lemma run_commits:
  assumes "d st \<noteq> 0"
  shows "interpolator_run st inb outb =
         (case stuff (d st) (take (step_count st inb outb) (items inb)) of
            Inl e \<Rightarrow> Inl e
          | Inr stored \<Rightarrow>
              Inr (inb\<lparr>items := drop (step_count st inb outb) (items inb),
                       free := free inb + step_count st inb outb\<rparr>,
                   outb\<lparr>items := items outb @ take (step_count st inb outb * unat (d st)) stored,
                        free := free outb - step_count st inb outb * unat (d st)\<rparr>))"
  using assms step_count_readable [of st inb outb] step_count_writable [of st inb outb]
  by (simp add: interpolator_run_def Let_def rd_def read_n_def written_def split: sum.splits)

lemma run_pos:
  assumes "d st \<noteq> 0" "unat (d st) \<le> 2 ^ 31"
  shows "interpolator_run st inb outb =
         Inr (inb\<lparr>items := drop (step_count st inb outb) (items inb),
                  free := free inb + step_count st inb outb\<rparr>,
              outb\<lparr>items := items outb @
                    concat (map (\<lambda>x. x # replicate (unat (d st) - 1) 0)
                               (take (step_count st inb outb) (items inb))),
                   free := free outb - step_count st inb outb * unat (d st)\<rparr>)"
proof -
  let ?n = "step_count st inb outb"
  let ?out = "concat (map (\<lambda>x. x # replicate (unat (d st) - 1) 0) (take ?n (items inb)))"
  have pos: "Suc (unat (d st) - 1) = unat (d st)"
    using assms(1) by (simp add: unat_gt_0)
  have "length (take ?n (items inb)) = ?n"
    using step_count_readable [of st inb outb] by (simp add: readable_def)
  hence len: "length ?out = ?n * unat (d st)"
    by (simp only: length_stuffed pos)
  hence "take (?n * unat (d st)) ?out = ?out" by simp
  thus ?thesis
    by (simp add: run_commits [OF assms(1)] stuff_pos [OF assms] del: One_nat_def)
qed

section \<open>The interpolator stage\<close>

text \<open>
  C1. For a positive interpolation factor \<open>d0\<close>, one step of the interpolator
  takes \<open>n\<close> input elements, where \<open>n\<close> is at most \<open>readable\<close> of the input and
  at most \<open>writable\<close> of the output divided by the factor, rounded down; it
  stores and commits exactly \<open>n\<close> times the factor output elements, and the
  readable and writable counts change by exactly these amounts.
\<close>

theorem interpolator_run_exact_ratio:
  assumes "0 < sint d0"
  shows "\<exists>n inb' outb' stored.
           interpolator_run (interpolator_new d0) inb outb = Inr (inb', outb') \<and>
           n = min (readable inb) (writable outb div nat (sint d0)) \<and>
           n \<le> readable inb \<and>
           n \<le> writable outb div nat (sint d0) \<and>
           items inb' = drop n (items inb) \<and>
           items outb' = items outb @ stored \<and>
           length stored = n * nat (sint d0) \<and>
           int (readable inb') = int (readable inb) - int n \<and>
           int (readable outb') = int (readable outb) + int (n * nat (sint d0)) \<and>
           int (writable outb') = int (writable outb) - int (n * nat (sint d0))"
proof -
  let ?st = "interpolator_new d0"
  define k where "k = nat (sint d0)"
  define n where "n = step_count ?st inb outb"
  define stored where "stored = concat (map (\<lambda>x. x # replicate (k - 1) 0) (take n (items inb)))"
  define inb' where "inb' = inb\<lparr>items := drop n (items inb), free := free inb + n\<rparr>"
  define outb' where "outb' = outb\<lparr>items := items outb @ stored, free := free outb - n * k\<rparr>"
  have dk: "d ?st = d0" by (simp add: interpolator_new_def)
  have k: "unat (d ?st) = k" using pos_factor(3) [OF assms] by (simp add: dk k_def)
  have nz: "d ?st \<noteq> 0" using pos_factor(1) [OF assms] by (simp add: dk)
  have le: "unat (d ?st) \<le> 2 ^ 31" using pos_factor(2) [OF assms] by (simp add: dk)
  have kpos: "Suc (k - 1) = k" using assms by (simp add: k_def)
  have nmin: "n = min (readable inb) (writable outb div k)"
    by (simp only: n_def step_count_def k)
  have r: "n \<le> readable inb" unfolding n_def by (rule step_count_readable)
  have nw: "n \<le> writable outb div k" by (simp only: nmin min.cobounded2)
  have w: "n * k \<le> writable outb"
    using step_count_writable [of ?st inb outb] by (simp only: k n_def)
  have "length (take n (items inb)) = n" using r by (simp add: readable_def)
  hence len: "length stored = n * k" by (simp only: stored_def length_stuffed kpos)
  have run: "interpolator_run ?st inb outb = Inr (inb', outb')"
    using run_pos [OF nz le, of inb outb]
    by (simp only: k n_def [symmetric] stored_def [symmetric] inb'_def [symmetric]
          outb'_def [symmetric])
  have i1: "items inb' = drop n (items inb)" by (simp add: inb'_def)
  have o1: "items outb' = items outb @ stored" by (simp add: outb'_def)
  have r1: "int (readable inb') = int (readable inb) - int n"
    using r by (simp add: readable_def inb'_def)
  have r2: "int (readable outb') = int (readable outb) + int (n * k)"
    by (simp add: readable_def outb'_def len)
  have w2: "int (writable outb') = int (writable outb) - int (n * k)"
    using w by (simp add: writable_def outb'_def of_nat_diff)
  have "interpolator_run ?st inb outb = Inr (inb', outb') \<and>
        n = min (readable inb) (writable outb div k) \<and>
        n \<le> readable inb \<and> n \<le> writable outb div k \<and>
        items inb' = drop n (items inb) \<and> items outb' = items outb @ stored \<and>
        length stored = n * k \<and>
        int (readable inb') = int (readable inb) - int n \<and>
        int (readable outb') = int (readable outb) + int (n * k) \<and>
        int (writable outb') = int (writable outb) - int (n * k)"
    using run nmin r nw i1 o1 len r1 r2 w2 by (intro conjI)
  thus ?thesis unfolding k_def by (intro exI)
qed

theorem interpolator_run_exact_ratio_witness:
  "0 < sint (3 :: c_int) \<and>
   (\<exists>n inb' outb' stored.
      interpolator_run (interpolator_new 3) \<lparr>items = [5, 7, 9 :: int], free = 1\<rparr>
          \<lparr>items = [1], free = 7\<rparr> = Inr (inb', outb') \<and>
      n = (2::nat) \<and> items inb' = [9] \<and> items outb' = [1] @ stored \<and> length stored = 6)"
proof -
  have h: "0 < sint (3 :: c_int)" by simp
  from interpolator_run_exact_ratio [OF h, of "\<lparr>items = [5, 7, 9 :: int], free = 1\<rparr>"
      "\<lparr>items = [1], free = 7\<rparr>"]
  obtain n inb' outb' stored where
    run: "interpolator_run (interpolator_new 3) \<lparr>items = [5, 7, 9 :: int], free = 1\<rparr>
            \<lparr>items = [1], free = 7\<rparr> = Inr (inb', outb')" and
    n: "n = min (readable \<lparr>items = [5, 7, 9 :: int], free = 1\<rparr>)
              (writable \<lparr>items = [1 :: int], free = 7\<rparr> div nat (sint (3 :: c_int)))" and
    i: "items inb' = drop n (items \<lparr>items = [5, 7, 9 :: int], free = 1\<rparr>)" and
    o: "items outb' = items \<lparr>items = [1 :: int], free = 7\<rparr> @ stored" and
    l: "length stored = n * nat (sint (3 :: c_int))"
    by blast
  have n2: "n = 2" using n by (simp add: readable_def writable_def)
  have i2: "items inb' = [9]" using i by (simp add: n2)
  have o2: "items outb' = [1] @ stored" using o by simp
  have l2: "length stored = 6" using l by (simp add: n2)
  show ?thesis using h run n2 i2 o2 l2 by blast
qed

text \<open>
  C2. For all buffers and every factor, a step of the interpolator never ends in
  a buffer underflow or overflow, and when it returns it has advanced the input
  by a count \<open>n\<close> of at most \<open>readable\<close> and committed to the output a count
  \<open>m\<close> of at most \<open>writable\<close>, both taken at the start of the step; the counts
  that remain, computed in the integers, are not negative.
\<close>

theorem interpolator_run_backpressure_safe:
  "interpolator_run st inb outb \<noteq> Inl BufferUnderflow \<and>
   interpolator_run st inb outb \<noteq> Inl BufferOverflow \<and>
   (\<forall>inb' outb'. interpolator_run st inb outb = Inr (inb', outb') \<longrightarrow>
      (\<exists>n m. n \<le> readable inb \<and> m \<le> writable outb \<and>
             read_n n inb = Inr inb' \<and>
             int (readable inb') = int (readable inb) - int n \<and>
             int (writable outb') = int (writable outb) - int m \<and>
             0 \<le> int (readable inb) - int n \<and>
             0 \<le> int (writable outb) - int m))"
proof (cases "d st = 0")
  case True
  thus ?thesis by (simp add: interpolator_run_def)
next
  case False
  let ?n = "step_count st inb outb"
  let ?m = "?n * unat (d st)"
  note c = run_commits [OF False, of inb outb]
  have r: "?n \<le> readable inb" by (rule step_count_readable)
  have w: "?m \<le> writable outb" by (rule step_count_writable)
  have wi: "int ?m \<le> int (writable outb)" using w by (simp only: of_nat_le_iff)
  have e1: "interpolator_run st inb outb \<noteq> Inl BufferUnderflow"
    using c by (auto split: sum.splits dest: stuff_error)
  have e2: "interpolator_run st inb outb \<noteq> Inl BufferOverflow"
    using c by (auto split: sum.splits dest: stuff_error)
  have ok: "\<exists>n m. n \<le> readable inb \<and> m \<le> writable outb \<and>
             read_n n inb = Inr inb' \<and>
             int (readable inb') = int (readable inb) - int n \<and>
             int (writable outb') = int (writable outb) - int m \<and>
             0 \<le> int (readable inb) - int n \<and>
             0 \<le> int (writable outb) - int m"
    if "interpolator_run st inb outb = Inr (inb', outb')" for inb' outb'
  proof -
    from that c obtain stored where
      i: "inb' = inb\<lparr>items := drop ?n (items inb), free := free inb + ?n\<rparr>" and
      o: "outb' = outb\<lparr>items := items outb @ take ?m stored, free := free outb - ?m\<rparr>"
      by (auto split: sum.splits)
    show ?thesis
      apply (rule exI [of _ ?n])
      apply (rule exI [of _ ?m])
      using r w wi i o
      apply (simp add: readable_def writable_def read_n_def)
      done
  qed
  show ?thesis using e1 e2 ok by blast
qed

theorem interpolator_run_backpressure_safe_witness:
  "interpolator_run \<lparr>d = 3\<rparr> \<lparr>items = [5, 7, 9 :: int], free = 1\<rparr> \<lparr>items = [1], free = 7\<rparr>
     = Inr (\<lparr>items = [9], free = 3\<rparr>, \<lparr>items = [1, 5, 0, 0, 7, 0, 0], free = 1\<rparr>) \<and>
   (\<exists>n m. n \<le> (3::nat) \<and> m \<le> (7::nat) \<and> int 1 = int 3 - int n \<and> int 1 = int 7 - int m)"
proof -
  let ?i = "\<lparr>items = [5, 7, 9 :: int], free = 1\<rparr>"
  let ?o = "\<lparr>items = [1 :: int], free = 7\<rparr>"
  have run: "interpolator_run \<lparr>d = 3\<rparr> ?i ?o
     = Inr (\<lparr>items = [9], free = 3\<rparr>, \<lparr>items = [1, 5, 0, 0, 7, 0, 0], free = 1\<rparr>)"
    by (simp add: interpolator_run_def step_count_def readable_def writable_def rd_def
        read_n_def written_def zero_fill.simps)
  from interpolator_run_backpressure_safe [of "\<lparr>d = 3\<rparr>" ?i ?o] run
  have "\<exists>n m. n \<le> readable ?i \<and> m \<le> writable ?o \<and>
          int (readable \<lparr>items = [9::int], free = 3\<rparr>) = int (readable ?i) - int n \<and>
          int (writable \<lparr>items = [1, 5, 0, 0, 7, 0, 0 :: int], free = 1\<rparr>) = int (writable ?o) - int m"
    by blast
  thus ?thesis using run by (simp add: readable_def writable_def)
qed

text \<open>
  C8. When a step of the interpolator (with a factor other than 0) finds nothing
  readable, or fewer writable elements than the factor, it returns both buffers
  as they were: nothing is consumed and nothing is produced.
\<close>

theorem interpolator_run_no_progress:
  assumes "d st \<noteq> 0"
    and "readable inb = 0 \<or> writable outb < unat (d st)"
  shows "interpolator_run st inb outb = Inr (inb, outb)"
proof -
  have "step_count st inb outb = 0"
    using assms(2) by (auto simp: step_count_def)
  thus ?thesis by (simp add: run_commits [OF assms(1)])
qed

theorem interpolator_run_no_progress_witness:
  "(3 :: c_uint) \<noteq> 0 \<and>
   readable \<lparr>items = [] :: int list, free = 4\<rparr> = 0 \<and> 
   writable \<lparr>items = [1 :: int], free = 2\<rparr> < unat (3 :: c_uint) \<and>
   interpolator_run \<lparr>d = 3\<rparr> \<lparr>items = [], free = 4\<rparr> \<lparr>items = [1 :: int], free = 7\<rparr>
     = Inr (\<lparr>items = [], free = 4\<rparr>, \<lparr>items = [1], free = 7\<rparr>) \<and>
   interpolator_run \<lparr>d = 3\<rparr> \<lparr>items = [5, 7 :: int], free = 2\<rparr> \<lparr>items = [1], free = 2\<rparr>
     = Inr (\<lparr>items = [5, 7], free = 2\<rparr>, \<lparr>items = [1], free = 2\<rparr>)"
  using interpolator_run_no_progress [of "\<lparr>d = 3\<rparr>" "\<lparr>items = [] :: int list, free = 4\<rparr>" "\<lparr>items = [1 :: int], free = 7\<rparr>"]
    interpolator_run_no_progress [of "\<lparr>d = 3\<rparr>" "\<lparr>items = [5, 7 :: int], free = 2\<rparr>" "\<lparr>items = [1], free = 2\<rparr>"]
  by (simp add: readable_def writable_def)

section \<open>Zero stuffing and decimation\<close>

lemma decimate_nth:
  assumes "i < length ys div k"
  shows "decimate k ys ! i = ys ! (i * k)"
  using assms by (simp add: decimate_def)

lemma length_decimate: "length (decimate k ys) = length ys div k"
  by (simp add: decimate_def)

text \<open>
  C4. For a positive factor \<open>d0\<close>, the step of the interpolator appends to the
  output, for each input sample it takes and in their order, the sample followed
  by exactly \<open>d0 - 1\<close> zeros. The decimator with factor \<open>k\<close> keeps of its input
  \<open>ys\<close> the samples at the positions \<open>0, k, 2k, \<dots>\<close>, one for each complete group
  of \<open>k\<close>.
\<close>

theorem zero_stuffing_then_decimation:
  assumes "0 < sint d0"
  shows "(\<exists>inb' outb'.
            interpolator_run (interpolator_new d0) inb outb = Inr (inb', outb') \<and>
            items outb' = items outb @
              concat (map (\<lambda>x. x # replicate (nat (sint d0) - 1) 0)
                         (take (min (readable inb) (writable outb div nat (sint d0))) (items inb)))) \<and>
         length (decimate k ys) = length ys div k \<and>
         (\<forall>i < length ys div k. decimate k ys ! i = ys ! (i * k))"
proof -
  let ?st = "interpolator_new d0"
  have dk: "d ?st = d0" by (simp add: interpolator_new_def)
  have k: "unat (d ?st) = nat (sint d0)" using pos_factor(3) [OF assms] by (simp add: dk)
  have nz: "d ?st \<noteq> 0" using pos_factor(1) [OF assms] by (simp add: dk)
  have le: "unat (d ?st) \<le> 2 ^ 31" using pos_factor(2) [OF assms] by (simp add: dk)
  have n: "step_count ?st inb outb = min (readable inb) (writable outb div nat (sint d0))"
    by (simp only: step_count_def k)
  have "\<exists>inb' outb'.
            interpolator_run ?st inb outb = Inr (inb', outb') \<and>
            items outb' = items outb @
              concat (map (\<lambda>x. x # replicate (nat (sint d0) - 1) 0)
                         (take (min (readable inb) (writable outb div nat (sint d0))) (items inb)))"
    using run_pos [OF nz le, of inb outb] by (simp add: k n del: One_nat_def)
  thus ?thesis by (simp add: length_decimate decimate_nth)
qed

theorem zero_stuffing_then_decimation_witness:
  "0 < sint (3 :: c_int) \<and>
   (\<exists>inb' outb'.
      interpolator_run (interpolator_new 3) \<lparr>items = [5, 7, 9 :: int], free = 1\<rparr>
          \<lparr>items = [1], free = 7\<rparr> = Inr (inb', outb') \<and>
      items outb' = [1, 5, 0, 0, 7, 0, 0]) \<and>
   (1 :: nat) < length [5, 0, 0, 7, 0, 0 :: int] div 3 \<and>
   decimate 3 [5, 0, 0, 7, 0, 0 :: int] ! 1 = 7"
  using zero_stuffing_then_decimation [of 3 "\<lparr>items = [5, 7, 9 :: int], free = 1\<rparr>"
      "\<lparr>items = [1], free = 7\<rparr>" 3 "[5, 0, 0, 7, 0, 0 :: int]"]
  by (simp add: readable_def writable_def numeral_2_eq_2)

section \<open>The configuration and what \<^verbatim>\<open>run\<close> derives from it\<close>

lemma sint_times_10:
  fixes i :: c_int
  assumes "- 214748364 \<le> sint i" "sint i \<le> 214748364"
  shows "sint (i * 10) = sint i * 10"
proof -
  have "sint (i * 10) = signed_take_bit 31 (sint i * 10)"
    by (simp add: sint_word_mult)
  also have "\<dots> = sint i * 10"
    using assms by (intro signed_take_bit_int_eq_self) simp_all
  finally show ?thesis .
qed

text \<open>
  C7. A freshly constructed configuration has interpolation factor 2, decimation
  factor 1, roll-off 0.35 and power 1.0, with AGC, verbose and debug all off.
\<close>

theorem config_init_defaults:
  "sint (interp config_init) = 2 \<and> sint (decim config_init) = 1 \<and>
   rolloff config_init = Fin 0.35 \<and> power config_init = Fin 1 \<and>
   agc config_init = False \<and> verbose config_init = False \<and> debug config_init = False"
  by (simp add: config_init_def)

text \<open>
  C5. For an interpolation factor \<open>I\<close> other than 0 whose tenfold fits an
  \<^verbatim>\<open>int\<close>, the filter that \<^verbatim>\<open>run\<close> requests has order \<open>I * 10\<close> and cutoff
  \<open>1 / I\<close>, with the configured roll-off.
\<close>

theorem rrc_request:
  assumes "sint (interp cfg) \<noteq> 0"
    and "- 214748364 \<le> sint (interp cfg)" and "sint (interp cfg) \<le> 214748364"
  shows "sint (rrc_order (run cfg)) = sint (interp cfg) * 10 \<and>
         rrc_Fm (run cfg) = Fin (1 / real_of_int (sint (interp cfg))) \<and>
         rrc_rolloff (run cfg) = rolloff cfg"
  using assms by (simp add: run_def fl_of_int_def sint_times_10 del: of_int_sint)

theorem rrc_request_witness:
  "sint (interp (config_init\<lparr>interp := 4\<rparr>)) \<noteq> 0 \<and>
   - 214748364 \<le> sint (interp (config_init\<lparr>interp := 4\<rparr>)) \<and>
   sint (interp (config_init\<lparr>interp := 4\<rparr>)) \<le> 214748364 \<and>
   sint (rrc_order (run (config_init\<lparr>interp := 4\<rparr>))) = 40 \<and>
   rrc_Fm (run (config_init\<lparr>interp := 4\<rparr>)) = Fin (1 / 4)"
  using rrc_request [of "config_init\<lparr>interp := 4\<rparr>"]
  by simp

text \<open>
  C6. With AGC enabled and factors other than 0, the bandwidth of the AGC is
  \<open>0.001 * decim / interp\<close>, and its time constant counted in symbol periods is
  1000 whatever the two factors are.
\<close>

theorem agc_bandwidth:
  assumes "agc cfg" and "sint (interp cfg) \<noteq> 0" and "sint (decim cfg) \<noteq> 0"
  shows "\<exists>a. agc_stage (run cfg) = Some a \<and>
           bw a = Fin (0.001 * real_of_int (sint (decim cfg)) / real_of_int (sint (interp cfg))) \<and>
           agc_time_constant_symbols (bw a) (interp cfg) (decim cfg) = Fin 1000"
  using assms
  by (simp add: run_def fl_of_int_def agc_time_constant_symbols_def del: of_int_sint)

theorem agc_bandwidth_witness:
  "agc (config_init\<lparr>agc := True, interp := 4\<rparr>) \<and>
   sint (interp (config_init\<lparr>agc := True, interp := 4\<rparr>)) \<noteq> 0 \<and>
   sint (decim (config_init\<lparr>agc := True, interp := 4\<rparr>)) \<noteq> 0 \<and>
   (\<exists>a. agc_stage (run (config_init\<lparr>agc := True, interp := 4\<rparr>)) = Some a \<and>
        bw a = Fin (1 / 4000) \<and>
        agc_time_constant_symbols (bw a) 4 1 = Fin 1000)"
  using agc_bandwidth [of "config_init\<lparr>agc := True, interp := 4\<rparr>"]
  by (simp add: config_init_def)

text \<open>
  C9. With AGC enabled, a finite power \<open>p\<close> and positive factors, the target RMS
  of the AGC is \<open>p\<close> divided by the square root of \<open>interp / decim\<close>, where the
  quotient of the two factors is taken in floating point, not in the integers.
\<close>

theorem agc_out_rms:
  assumes "agc cfg" and "power cfg = Fin p"
    and "0 < sint (interp cfg)" and "0 < sint (decim cfg)"
  shows "\<exists>a. agc_stage (run cfg) = Some a \<and>
           out_rms a =
             Fin (p / sqrt (real_of_int (sint (interp cfg)) / real_of_int (sint (decim cfg))))"
proof -
  let ?i = "real_of_int (sint (interp cfg))"
  let ?k = "real_of_int (sint (decim cfg))"
  have ip: "0 < ?i" and kp: "0 < ?k" using assms(3,4) by (simp_all del: of_int_sint)
  hence rp: "0 < ?i / ?k" by simp
  hence sp: "0 < sqrt (?i / ?k)" by simp
  have nneg: "\<not> ?i / ?k < 0" using rp by linarith
  have snz: "sqrt (?i / ?k) \<noteq> 0" using sp by linarith
  have knz: "sint (decim cfg) \<noteq> 0" and inz: "sint (interp cfg) \<noteq> 0"
    using assms(3,4) by simp_all
  have "agc_stage (run cfg) = Some \<lparr>out_rms = Fin (p / sqrt (?i / ?k)),
              bw = Fin (0.001 * ?k / ?i)\<rparr>"
    by (simp add: run_def fl_of_int_def assms(1,2) knz inz nneg snz
        del: of_int_sint real_sqrt_eq_zero_cancel_iff real_sqrt_eq_0_iff divide_eq_0_iff
             divide_less_0_iff zero_less_divide_iff)
  thus ?thesis by (simp del: of_int_sint)
qed

theorem agc_out_rms_witness:
  "agc (config_init\<lparr>agc := True, interp := 4\<rparr>) \<and>
   power (config_init\<lparr>agc := True, interp := 4\<rparr>) = Fin 1 \<and>
   0 < sint (interp (config_init\<lparr>agc := True, interp := 4\<rparr>)) \<and>
   0 < sint (decim (config_init\<lparr>agc := True, interp := 4\<rparr>)) \<and>
   (\<exists>a. agc_stage (run (config_init\<lparr>agc := True, interp := 4\<rparr>)) = Some a \<and>
        out_rms a = Fin (1 / 2))"
  using agc_out_rms [of "config_init\<lparr>agc := True, interp := 4\<rparr>" 1]
  by (simp add: config_init_def)

section \<open>The command line\<close>

lemmas scan_defs = scan_d_def scan_unsigned_def isspace_def isdigit_def digit_val_def

lemma sint_of_int_in_range:
  assumes "- (2 ^ 31) \<le> N" "N < 2 ^ 31"
  shows "sint (word_of_int N :: c_int) = N"
proof -
  have "sint (word_of_int N :: c_int) = signed_take_bit 31 N"
    by (simp add: sint_sbintrunc')
  also have "\<dots> = N" using assms by (rule signed_take_bit_int_eq_self)
  finally show ?thesis .
qed

lemma sscanf_single:
  assumes "scan_d s = Converted N rest"
    and "\<forall>r. rest = CHR ''/'' # r \<longrightarrow> (\<forall>m r'. scan_d r \<noteq> Converted m r')"
  shows "sscanf_d_slash_d s (a, b) = (1, word_of_int N, b)"
  using assms
  by (auto simp: sscanf_d_slash_d_def split: list.splits conv.splits)

lemma sscanf_none:
  assumes "\<forall>N rest. scan_d s \<noteq> Converted N rest"
  shows "fst (sscanf_d_slash_d s ab) < 1"
  using assms
  by (cases "scan_d s") (simp_all add: sscanf_d_slash_d_def)

lemma parse_args_exit:
  "parse_args atof args cfg = Inl e \<Longrightarrow> e = (Stdout, 0) \<or> e = (Stderr, 1)"
proof (induction atof args cfg rule: parse_args.induct)
  case (1 atof cfg)
  thus ?case by simp
next
  case (2 atof a rest cfg)
  show ?case
  proof (cases "a = ''-h''")
    case True
    with "2.prems" show ?thesis by simp
  next
    case nh: False
    show ?thesis
    proof (cases "a = ''-v''")
      case True
      with nh "2.prems" "2.IH"(1) show ?thesis by simp
    next
      case nv: False
      show ?thesis
      proof (cases "a = ''-d''")
        case True
        with nh nv "2.prems" "2.IH"(2) show ?thesis by simp
      next
        case nd: False
        show ?thesis
        proof (cases "a = ''-f'' \<and> rest \<noteq> []")
          case True
          obtain ret i' d' where
            sc: "sscanf_d_slash_d (hd rest) (interp cfg, 1) = (ret, i', d')"
            by (cases "sscanf_d_slash_d (hd rest) (interp cfg, 1)") auto
          show ?thesis
          proof (cases "ret < 1")
            case True
            with nh nv nd \<open>a = ''-f'' \<and> rest \<noteq> []\<close> sc "2.prems" show ?thesis by simp
          next
            case False
            with nh nv nd \<open>a = ''-f'' \<and> rest \<noteq> []\<close> sc "2.prems"
            have "parse_args atof (tl rest) (cfg\<lparr>decim := d', interp := i'\<rparr>) = Inl e"
              by simp
            with "2.IH"(3) [OF nh nv nd \<open>a = ''-f'' \<and> rest \<noteq> []\<close> sc [symmetric] refl False]
            show ?thesis by simp
          qed
        next
          case nf: False
          show ?thesis
          proof (cases "a = ''--roll-off'' \<and> rest \<noteq> []")
            case True
            with nh nv nd nf "2.prems" "2.IH"(4) show ?thesis by simp
          next
            case nr: False
            show ?thesis
            proof (cases "a = ''--power'' \<and> rest \<noteq> []")
              case True
              with nh nv nd nf nr "2.prems" "2.IH"(5) show ?thesis by simp
            next
              case np: False
              show ?thesis
              proof (cases "a = ''--agc''")
                case True
                with nh nv nd nf nr np "2.prems" "2.IH"(6) show ?thesis by simp
              next
                case False
                from "2.prems" show ?thesis by (simp add: nh nv nd nf nr np False)
              qed
            qed
          qed
        qed
      qed
    qed
  qed
qed

text \<open>
  C10. At any point of the option loop, \<^verbatim>\<open>-f\<close> followed by an argument in which
  \<^verbatim>\<open>%d\<close> converts an integer \<open>N\<close> and no \<^verbatim>\<open>/\<close> with a second integer follows makes
  the loop go on with interpolation factor \<open>N\<close> and decimation factor 1, whatever
  the two were before; \<open>N\<close> is stored as it is when it is in the range of
  \<^verbatim>\<open>int\<close>. When \<^verbatim>\<open>%d\<close> converts no integer at the start of the argument, the
  program exits through \<^verbatim>\<open>usage\<close> on standard error with code 1.
\<close>

theorem dash_f_single_integer:
  "(scan_d s = Converted N rest \<and>
    (\<forall>r. rest = CHR ''/'' # r \<longrightarrow> (\<forall>m r'. scan_d r \<noteq> Converted m r')) \<longrightarrow>
      parse_args atof (''-f'' # s # args) cfg =
        parse_args atof args (cfg\<lparr>decim := 1, interp := word_of_int N\<rparr>) \<and>
      sint (decim (cfg\<lparr>decim := 1, interp := word_of_int N\<rparr>)) = 1 \<and>
      (- (2 ^ 31) \<le> N \<and> N < 2 ^ 31 \<longrightarrow>
         sint (interp (cfg\<lparr>decim := 1, interp := word_of_int N\<rparr>)) = N)) \<and>
   ((\<forall>N rest. scan_d s \<noteq> Converted N rest) \<longrightarrow>
      parse_args atof (''-f'' # s # args) cfg = Inl (Stderr, 1))"
proof (intro conjI impI)
  assume h: "scan_d s = Converted N rest \<and>
    (\<forall>r. rest = CHR ''/'' # r \<longrightarrow> (\<forall>m r'. scan_d r \<noteq> Converted m r'))"
  hence one: "sscanf_d_slash_d s (interp cfg, 1) = (1, word_of_int N, 1)"
    by (intro sscanf_single) blast+
  show "parse_args atof (''-f'' # s # args) cfg =
        parse_args atof args (cfg\<lparr>decim := 1, interp := word_of_int N\<rparr>)"
    by (simp add: one)
  show "sint (decim (cfg\<lparr>decim := 1, interp := word_of_int N\<rparr>)) = 1"
    by simp
next
  assume "- (2 ^ 31) \<le> N \<and> N < 2 ^ 31"
  thus "sint (interp (cfg\<lparr>decim := 1, interp := word_of_int N\<rparr>)) = N"
    by (simp add: sint_of_int_in_range)
next
  assume "\<forall>N rest. scan_d s \<noteq> Converted N rest"
  hence lt: "fst (sscanf_d_slash_d s (interp cfg, 1)) < 1" by (rule sscanf_none)
  obtain ret i' d' where sc: "sscanf_d_slash_d s (interp cfg, 1) = (ret, i', d')"
    by (cases "sscanf_d_slash_d s (interp cfg, 1)") auto
  from lt sc have "ret < 1" by simp
  thus "parse_args atof (''-f'' # s # args) cfg = Inl (Stderr, 1)"
    by (simp add: sc)
qed

theorem dash_f_single_integer_witness:
  "parse_args (atof_const (Fin 0)) [''-f'', ''3/2''] config_init =
     Inr (config_init\<lparr>decim := 2, interp := 3\<rparr>) \<and>
   scan_d ''4'' = Converted 4 [] \<and>
   parse_args (atof_const (Fin 0)) [''-f'', ''4''] (config_init\<lparr>decim := 2, interp := 3\<rparr>) =
     Inr (config_init\<lparr>decim := 1, interp := 4\<rparr>) \<and>
   (\<forall>N rest. scan_d ''x4'' \<noteq> Converted N rest) \<and>
   parse_args (atof_const (Fin 0)) [''-f'', ''x4''] config_init = Inl (Stderr, 1)"
proof -
  have a: "scan_d ''4'' = Converted 4 []" by (simp add: scan_defs)
  have b: "\<forall>N rest. scan_d ''x4'' \<noteq> Converted N rest" by (simp add: scan_defs)
  have c: "parse_args (atof_const (Fin 0)) [''-f'', ''3/2''] config_init =
     Inr (config_init\<lparr>decim := 2, interp := 3\<rparr>)"
    by (simp add: sscanf_d_slash_d_def scan_defs)
  from dash_f_single_integer [of "''4''" 4 "[]" "atof_const (Fin 0)" "[]"
      "config_init\<lparr>decim := 2, interp := 3\<rparr>"] a
  have d: "parse_args (atof_const (Fin 0)) [''-f'', ''4''] (config_init\<lparr>decim := 2, interp := 3\<rparr>) =
     Inr (config_init\<lparr>decim := 1, interp := 4\<rparr>)"
    by simp
  from dash_f_single_integer [of "''x4''" 0 "[]" "atof_const (Fin 0)" "[]" config_init] b
  have e: "parse_args (atof_const (Fin 0)) [''-f'', ''x4''] config_init = Inl (Stderr, 1)"
    by blast
  show ?thesis using a b c d e by blast
qed

section \<open>Configurations that are out of range\<close>




end
